theory Spec2Isabelle
  imports Complex_Main "HOL-Library.AList"
begin

section \<open>Errors, rows and the observable world\<close>

text \<open>
  A JavaScript error object carries a message and, for errors raised by the SQLite driver or
  the file system, a \<open>code\<close> such as \<open>SQLITE_BUSY\<close>. An error made with
  \<open>new Error(msg)\<close> has no code.
\<close>

datatype error = Error (message: string) (code: "string option")

text \<open>A parsed record: column name to raw string value, in header order.\<close>

type_synonym row = "(string \<times> string) list"

record table =
  columns :: "string list"
  primaryKey :: string
  rows :: "row list"

text \<open>
  A JavaScript number, as far as a retry bound and a delay need it: a finite number, kept
  exact as a rational, \<open>NaN\<close> or \<open>-Infinity\<close>. \<open>+Infinity\<close> is left out: as a bound it makes
  the loop of \<open>retryOperation\<close> unbounded, so that a call may never return.
\<close>

datatype number = Num rat | NaN | NegInfinity

text \<open>The comparisons \<open><=\<close> and \<open><\<close> of JavaScript: false as soon as one side is \<open>NaN\<close>.\<close>

fun le_number :: "number \<Rightarrow> number \<Rightarrow> bool" where
  "le_number (Num a) (Num b) = (a \<le> b)"
| "le_number NegInfinity (Num b) = True"
| "le_number NegInfinity NegInfinity = True"
| "le_number (Num a) NegInfinity = False"
| "le_number NaN y = False"
| "le_number x NaN = False"

fun lt_number :: "number \<Rightarrow> number \<Rightarrow> bool" where
  "lt_number (Num a) (Num b) = (a < b)"
| "lt_number NegInfinity (Num b) = True"
| "lt_number NegInfinity NegInfinity = False"
| "lt_number (Num a) NegInfinity = False"
| "lt_number NaN y = False"
| "lt_number x NaN = False"

text \<open>
  Everything the program does to its surroundings is written to a trace, in order:
  console output, timers, the file stream's events and the statements sent to the database.
\<close>

datatype event =
    Raw string
  | ConsoleLog string
  | ConsoleError string "error option"
  | Timeout number
  | Open string
  | Data row
  | End
  | Begin
  | Insert string row
  | Commit
  | Rollback
  | Count string
  | Destroy

text \<open>
  The world: the files on disk (keyed by the path given to \<open>path.resolve(__dirname, _)\<close>),
  the tables of the database, and what the storage engine will answer to the next statements
  (\<open>None\<close>: the statement runs; \<open>Some e\<close>: it fails with \<open>e\<close>; an exhausted list: it runs).
\<close>

record world =
  files :: "string \<rightharpoonup> string"
  tables :: "string \<rightharpoonup> table"
  faults :: "error option list"
  trace :: "event list"

definition emit :: "event \<Rightarrow> 'z world_scheme \<Rightarrow> 'z world_scheme" where
  "emit ev w = w\<lparr>trace := trace w @ [ev]\<rparr>"

definition consoleLog :: "string \<Rightarrow> 'z world_scheme \<Rightarrow> 'z world_scheme" where
  "consoleLog msg w = emit (ConsoleLog msg) w"

definition nextFault :: "'z world_scheme \<Rightarrow> error option \<times> 'z world_scheme" where
  "nextFault w = (case faults w of [] \<Rightarrow> (None, w) | f # fs \<Rightarrow> (f, w\<lparr>faults := fs\<rparr>))"

section \<open>Template literals\<close>

definition digit :: "nat \<Rightarrow> char" where
  "digit n = ''0123456789'' ! n"

function show_nat :: "nat \<Rightarrow> string" where
  "show_nat n = (if n < 10 then [digit n] else show_nat (n div 10) @ [digit (n mod 10)])"
  by pat_completeness auto
termination
  by (relation "measure id") auto

declare show_nat.simps [simp del]

definition show_int :: "int \<Rightarrow> string" where
  "show_int i = (if i < 0 then CHR ''-'' # show_nat (nat (- i)) else show_nat (nat i))"

text \<open>
  The digits after the decimal point of a fraction \<open>0 \<le> f < 1\<close>, at most \<open>k\<close> of them, and
  the text of a number. An integer is printed by \<open>show_int\<close>; another finite number by its
  decimal expansion, which is what JavaScript prints for a number such as 2.5 whose shortest
  decimal form is exact (exponent notation, used from \<open>10^21\<close> on, is not modelled).
\<close>

fun fractionDigits :: "nat \<Rightarrow> rat \<Rightarrow> string" where
  "fractionDigits 0 f = []"
| "fractionDigits (Suc k) f =
     (if f = 0 then []
      else digit (nat \<lfloor>f * 10\<rfloor>) # fractionDigits k (f * 10 - of_int \<lfloor>f * 10\<rfloor>))"

definition show_number :: "number \<Rightarrow> string" where
  "show_number x =
     (case x of
        NaN \<Rightarrow> ''NaN''
      | NegInfinity \<Rightarrow> ''-Infinity''
      | Num r \<Rightarrow>
          (if r < 0 then ''-'' else []) @ show_nat (nat \<lfloor>\<bar>r\<bar>\<rfloor>) @
          (if frac \<bar>r\<bar> = 0 then [] else CHR ''.'' # fractionDigits 20 (frac \<bar>r\<bar>)))"




section \<open>checkDatabaseConnection, delay and retryOperation\<close>

text \<open>\<open>db.raw(sql)\<close>: one statement sent to the storage engine.\<close>

definition raw :: "string \<Rightarrow> 'z world_scheme \<Rightarrow> (error + unit) \<times> 'z world_scheme" where
  "raw sql w =
     (case nextFault (emit (Raw sql) w) of
        (Some e, w1) \<Rightarrow> (Inl e, w1)
      | (None, w1) \<Rightarrow> (Inr (), w1))"

definition checkDatabaseConnection :: "'z world_scheme \<Rightarrow> bool \<times> 'z world_scheme" where
  "checkDatabaseConnection w =
     (case raw ''SELECT 1'' w of
        (Inr _, w1) \<Rightarrow> (True, consoleLog ''Database connected successfully'' w1)
      | (Inl e, w1) \<Rightarrow> (False, emit (ConsoleError ''Database connection failed:'' (Some e)) w1))"

definition delay :: "number \<Rightarrow> 'z world_scheme \<Rightarrow> 'z world_scheme" where
  "delay ms w = emit (Timeout ms) w"

definition retryMessage :: "number \<Rightarrow> int \<Rightarrow> number \<Rightarrow> string" where
  "retryMessage delayMs attempt maxRetries =
     ''Database locked, retrying in '' @ show_number delayMs @ ''ms... (Attempt '' @
     show_int attempt @ ''/'' @ show_number maxRetries @ '')''"

definition exhausted :: "number \<Rightarrow> error" where
  "exhausted maxRetries =
     Error (''Operation failed after '' @ show_number maxRetries @ '' attempts'') None"

text \<open>
  The \<open>for\<close> loop of \<open>retryOperation\<close>, from \<open>attempt\<close> on. The operation is a
  closure run for its effects, so it takes the world and returns the new one with its result
  (\<open>Inl\<close>: the promise it returned was rejected). The bound and the delay are any numbers;
  the counter starts at 1 and only counts up, so it is an integer.
\<close>

function retryLoop ::
  "('z world_scheme \<Rightarrow> (error + 'a) \<times> 'z world_scheme) \<Rightarrow> number \<Rightarrow> number \<Rightarrow> int \<Rightarrow>
   'z world_scheme \<Rightarrow> (error + 'a) \<times> 'z world_scheme" where
  "retryLoop operation maxRetries delayMs attempt w =
     (if le_number (Num (of_int attempt)) maxRetries then
        (case operation w of
           (Inr v, w1) \<Rightarrow> (Inr v, w1)
         | (Inl e, w1) \<Rightarrow>
             if code e = Some ''SQLITE_BUSY'' \<and> lt_number (Num (of_int attempt)) maxRetries then
               retryLoop operation maxRetries delayMs (attempt + 1)
                 (delay delayMs (consoleLog (retryMessage delayMs attempt maxRetries) w1))
             else (Inl e, w1))
      else (Inl (exhausted maxRetries), w))"
  by pat_completeness auto
termination
  by (relation "measure (\<lambda>(operation, maxRetries, delayMs, attempt, w).
                   case maxRetries of Num r \<Rightarrow> nat (\<lfloor>r\<rfloor> + 1 - attempt) | _ \<Rightarrow> 0)")
     (auto simp: le_floor_iff split: number.splits)

declare retryLoop.simps [simp del]

definition retryOperation ::
  "('z world_scheme \<Rightarrow> (error + 'a) \<times> 'z world_scheme) \<Rightarrow> number \<Rightarrow> number \<Rightarrow>
   'z world_scheme \<Rightarrow> (error + 'a) \<times> 'z world_scheme" where
  "retryOperation operation maxRetries delayMs w = retryLoop operation maxRetries delayMs 1 w"

section \<open>The Row Source\<close>

text \<open>
  Modelled from the spec: the \<open>csv-parse\<close> library (imported at line 2, not part of the
  sources) as \<open>processCSVStream\<close> configures it, \<open>columns: true, skip_empty_lines: true\<close>.
  The first non-empty line names the columns; every later non-empty line is one record whose
  values are aligned by position with those names; a line with another number of fields is a
  parse error that ends the stream. Records are separated by line feeds and fields by commas;
  quoted fields are not modelled.
\<close>

fun splitOn :: "char \<Rightarrow> string \<Rightarrow> string list" where
  "splitOn c [] = [[]]"
| "splitOn c (x # xs) =
     (if x = c then [] # splitOn c xs
      else (case splitOn c xs of [] \<Rightarrow> [[x]] | f # fs \<Rightarrow> (x # f) # fs))"

definition toObject :: "string list \<Rightarrow> string list \<Rightarrow> row" where
  "toObject header cells = foldl (\<lambda>obj (k, v). AList.update k v obj) [] (zip header cells)"

definition recordLengthError :: error where
  "recordLengthError = Error ''Invalid Record Length'' (Some ''CSV_RECORD_INCONSISTENT_COLUMNS'')"

fun toRecords :: "string list \<Rightarrow> string list \<Rightarrow> row list \<times> error option" where
  "toRecords header [] = ([], None)"
| "toRecords header (l # ls) =
     (let cells = splitOn CHR '','' l in
      if length cells \<noteq> length header then ([], Some recordLengthError)
      else (case toRecords header ls of (rs, e) \<Rightarrow> (toObject header cells # rs, e)))"

definition parseLines :: "string list \<Rightarrow> row list \<times> error option" where
  "parseLines ls =
     (case filter (\<lambda>l. l \<noteq> []) ls of
        [] \<Rightarrow> ([], None)
      | h # rest \<Rightarrow> toRecords (splitOn CHR '','' h) rest)"

definition parse :: "string \<Rightarrow> row list \<times> error option" where
  "parse content = parseLines (splitOn (CHR 0x0A) content)"

section \<open>The storage engine\<close>

text \<open>
  The tables the two migrations create (\<open>up\<close> of each file): the columns and the primary key.
\<close>

definition customers_up :: "(string \<rightharpoonup> table) \<Rightarrow> (string \<rightharpoonup> table)" where
  "customers_up db = db(''customers'' \<mapsto>
     \<lparr>columns = [''Index'', ''Customer Id'', ''First Name'', ''Last Name'', ''Company'', ''City'',
        ''Country'', ''Phone 1'', ''Phone 2'', ''Email'', ''Subscription Date'', ''Website''],
      primaryKey = ''Customer Id'', rows = []\<rparr>)"

definition organizations_up :: "(string \<rightharpoonup> table) \<Rightarrow> (string \<rightharpoonup> table)" where
  "organizations_up db = db(''organizations'' \<mapsto>
     \<lparr>columns = [''Index'', ''Organization Id'', ''Name'', ''Website'', ''Country'', ''Description'',
        ''Founded'', ''Industry'', ''Number of employees''],
      primaryKey = ''Organization Id'', rows = []\<rparr>)"

definition sqliteError :: "string \<Rightarrow> string \<Rightarrow> error" where
  "sqliteError c msg = Error (c @ '': '' @ msg) (Some c)"

definition duplicateKey :: "table \<Rightarrow> row \<Rightarrow> bool" where
  "duplicateKey t r =
     (case map_of r (primaryKey t) of
        None \<Rightarrow> False
      | Some v \<Rightarrow> Some v \<in> set (map (\<lambda>x. map_of x (primaryKey t)) (rows t)))"

text \<open>
  \<open>trx(tableName).insert(record)\<close>: one INSERT statement. SQLite and knex are libraries, not
  part of the sources; this is their contract as the program uses it. The statement fails
  when the engine says so (a lock, for one), when the table or one of the record's columns does
  not exist, and when the primary key is already there; otherwise the row is appended.
\<close>

definition trxInsert :: "string \<Rightarrow> row \<Rightarrow> 'z world_scheme \<Rightarrow> (error + unit) \<times> 'z world_scheme" where
  "trxInsert tableName r w =
     (case nextFault (emit (Insert tableName r) w) of
        (Some e, w1) \<Rightarrow> (Inl e, w1)
      | (None, w1) \<Rightarrow>
          (case tables w1 tableName of
             None \<Rightarrow> (Inl (sqliteError ''SQLITE_ERROR'' (''no such table: '' @ tableName)), w1)
           | Some t \<Rightarrow>
               if \<not> list_all (\<lambda>c. c \<in> set (columns t)) (map fst r) then
                 (Inl (sqliteError ''SQLITE_ERROR'' (''table '' @ tableName @ '' has no such column'')), w1)
               else if duplicateKey t r then
                 (Inl (sqliteError ''SQLITE_CONSTRAINT'' (''UNIQUE constraint failed: '' @ tableName)), w1)
               else (Inr (), w1\<lparr>tables := (tables w1)(tableName \<mapsto> t\<lparr>rows := rows t @ [r]\<rparr>)\<rparr>)))"

text \<open>
  \<open>db.transaction(handler)\<close>: the handler's writes are committed when its promise resolves
  and undone when it rejects; the rejection is passed on.
\<close>

definition transaction ::
  "('z world_scheme \<Rightarrow> (error + 'a) \<times> 'z world_scheme) \<Rightarrow> 'z world_scheme \<Rightarrow>
   (error + 'a) \<times> 'z world_scheme" where
  "transaction handler w =
     (case handler (emit Begin w) of
        (Inr v, w1) \<Rightarrow> (Inr v, emit Commit w1)
      | (Inl e, w1) \<Rightarrow> (Inl e, emit Rollback (w1\<lparr>tables := tables w\<rparr>)))"

text \<open>\<open>db(tableName).count('* as count').first()\<close>\<close>

definition count :: "string \<Rightarrow> 'z world_scheme \<Rightarrow> (error + nat) \<times> 'z world_scheme" where
  "count tableName w =
     (case nextFault (emit (Count tableName) w) of
        (Some e, w1) \<Rightarrow> (Inl e, w1)
      | (None, w1) \<Rightarrow>
          (case tables w1 tableName of
             None \<Rightarrow> (Inl (sqliteError ''SQLITE_ERROR'' (''no such table: '' @ tableName)), w1)
           | Some t \<Rightarrow> (Inr (length (rows t)), w1)))"

definition destroy :: "'z world_scheme \<Rightarrow> 'z world_scheme" where
  "destroy w = emit Destroy w"

section \<open>processCSVStream\<close>

text \<open>
  How a promise ends: resolved, rejected, or never settled because an exception nobody
  handles ended the process first.
\<close>

datatype 'a outcome = Resolved 'a | Rejected error | Uncaught error

text \<open>The variables \<open>records\<close> and \<open>totalInserted\<close> live for one call of \<open>processCSVStream\<close>.\<close>

record ingestion = world +
  records :: "row list"
  totalInserted :: nat

definition enter :: "world \<Rightarrow> ingestion" where
  "enter w = \<lparr>files = files w, tables = tables w, faults = faults w, trace = trace w,
              records = [], totalInserted = 0\<rparr>"

definition leave :: "ingestion \<Rightarrow> world" where
  "leave s = \<lparr>files = files s, tables = tables s, faults = faults s, trace = trace s\<rparr>"

text \<open>The \<open>'data'\<close> listener.\<close>

definition onData :: "ingestion \<Rightarrow> row \<Rightarrow> ingestion" where
  "onData s r = (emit (Data r) s)\<lparr>records := records s @ [r]\<rparr>"

text \<open>\<open>totalInserted++\<close> and the progress line every 1000 records (lines 78 to 82).\<close>

definition countInserted :: "string \<Rightarrow> ingestion \<Rightarrow> ingestion" where
  "countInserted tableName s =
     (let s1 = s\<lparr>totalInserted := totalInserted s + 1\<rparr> in
      if totalInserted s1 mod 1000 = 0
      then consoleLog (''Inserted '' @ show_nat (totalInserted s1) @ '' records into '' @ tableName) s1
      else s1)"

text \<open>The \<open>for\<close> loop of the transaction handler.\<close>

fun insertRecords :: "string \<Rightarrow> row list \<Rightarrow> ingestion \<Rightarrow> (error + unit) \<times> ingestion" where
  "insertRecords tableName [] s = (Inr (), s)"
| "insertRecords tableName (r # rs) s =
     (case trxInsert tableName r s of
        (Inl e, s1) \<Rightarrow> (Inl e, s1)
      | (Inr _, s1) \<Rightarrow> insertRecords tableName rs (countInserted tableName s1))"

text \<open>The operation handed to \<open>retryOperation\<close>.\<close>

definition insertion :: "string \<Rightarrow> ingestion \<Rightarrow> (error + unit) \<times> ingestion" where
  "insertion tableName s = transaction (insertRecords tableName (records s)) s"

text \<open>The \<open>'end'\<close> listener; \<open>retryOperation\<close> is called with its defaults, 5 and 1000.\<close>

definition onEnd :: "string \<Rightarrow> ingestion \<Rightarrow> unit outcome \<times> ingestion" where
  "onEnd tableName s =
     (case retryOperation (insertion tableName) (Num 5) (Num 1000) (emit End s) of
        (Inr _, s1) \<Rightarrow>
          (Resolved (), consoleLog (''Finished inserting '' @ show_nat (totalInserted s1) @
                          '' records into '' @ tableName) s1)
      | (Inl e, s1) \<Rightarrow> (Rejected e, s1))"

text \<open>
  \<open>createReadStream(filePath).pipe(parser)\<close> with the three listeners on the parser. An
  error of the file stream itself (the file cannot be opened) is emitted on the file stream,
  which has no \<open>'error'\<close> listener, and \<open>pipe\<close> does not pass it on: it is thrown as an
  uncaught exception. An error of the parser reaches the \<open>'error'\<close> listener after the
  records before it were delivered.
\<close>

definition processCSVStream :: "string \<Rightarrow> string \<Rightarrow> world \<Rightarrow> unit outcome \<times> world" where
  "processCSVStream filePath tableName w =
     (let s = enter (emit (Open filePath) w) in
      case files w filePath of
        None \<Rightarrow>
          (Uncaught (Error (''ENOENT: no such file or directory, open '' @ filePath) (Some ''ENOENT'')),
           leave s)
      | Some content \<Rightarrow>
          (case parse content of
             (recs, Some e) \<Rightarrow> (Rejected e, leave (foldl onData s recs))
           | (recs, None) \<Rightarrow>
               (case onEnd tableName (foldl onData s recs) of (out, s1) \<Rightarrow> (out, leave s1))))"

section \<open>main\<close>

definition customersCsv :: string where
  "customersCsv = ''../tmp/extracted/dump/customers.csv''"

definition organizationsCsv :: string where
  "organizationsCsv = ''../tmp/extracted/dump/organizations.csv''"

definition verifyCounts :: "world \<Rightarrow> unit outcome \<times> world" where
  "verifyCounts w =
     (case count ''customers'' w of
        (Inl e, w1) \<Rightarrow> (Rejected e, w1)
      | (Inr customerCount, w1) \<Rightarrow>
          (case count ''organizations'' w1 of
             (Inl e, w2) \<Rightarrow> (Rejected e, w2)
           | (Inr orgCount, w2) \<Rightarrow>
               (Resolved (),
                consoleLog (''Organizations in database: '' @ show_nat orgCount)
                  (consoleLog (''Customers in database: '' @ show_nat customerCount) w2))))"

text \<open>The body of the \<open>try\<close> block.\<close>

definition tryBlock :: "world \<Rightarrow> unit outcome \<times> world" where
  "tryBlock w =
     (case checkDatabaseConnection w of
        (False, w1) \<Rightarrow>
          (Resolved (), emit (ConsoleError ''Exiting due to database connection failure'' None) w1)
      | (True, w1) \<Rightarrow>
          (case processCSVStream customersCsv ''customers''
                  (consoleLog ''Starting to insert customers'' w1) of
             (Resolved _, w2) \<Rightarrow>
               (case processCSVStream organizationsCsv ''organizations''
                       (consoleLog ''Starting to insert organizations'' w2) of
                  (Resolved _, w3) \<Rightarrow> verifyCounts (consoleLog ''All data insertion completed'' w3)
                | (Rejected e, w3) \<Rightarrow> (Rejected e, w3)
                | (Uncaught e, w3) \<Rightarrow> (Uncaught e, w3))
           | (Rejected e, w2) \<Rightarrow> (Rejected e, w2)
           | (Uncaught e, w2) \<Rightarrow> (Uncaught e, w2)))"

text \<open>The \<open>finally\<close> block.\<close>

definition finallyBlock :: "world \<Rightarrow> world" where
  "finallyBlock w = consoleLog ''Database connection closed'' (destroy w)"

text \<open>
  \<open>try\<close>, \<open>catch\<close> and \<open>finally\<close> around the body. An uncaught exception is not thrown
  inside the \<open>try\<close> block (it comes from a stream's event), so neither block sees it.
\<close>

definition main :: "world \<Rightarrow> unit outcome \<times> world" where
  "main w =
     (case tryBlock w of
        (Resolved _, w1) \<Rightarrow> (Resolved (), finallyBlock w1)
      | (Rejected e, w1) \<Rightarrow> (Resolved (), finallyBlock (emit (ConsoleError ''Error:'' (Some e)) w1))
      | (Uncaught e, w1) \<Rightarrow> (Uncaught e, w1))"

section \<open>Phases of the trace\<close>



text \<open>What reading the file \<open>p\<close> emits, and what writing to the table \<open>t\<close> under retry emits.\<close>

fun readEvent :: "string \<Rightarrow> event \<Rightarrow> bool" where
  "readEvent p (Open q) = (q = p)"
| "readEvent p (Data r) = True"
| "readEvent p End = True"
| "readEvent p _ = False"

fun writeEvent :: "string \<Rightarrow> event \<Rightarrow> bool" where
  "writeEvent t Begin = True"
| "writeEvent t (Insert u r) = (u = t)"
| "writeEvent t Commit = True"
| "writeEvent t Rollback = True"
| "writeEvent t (ConsoleLog m) = True"
| "writeEvent t (Timeout ms) = True"
| "writeEvent t _ = False"

section \<open>Example worlds\<close>

definition busy :: error where
  "busy = Error ''SQLITE_BUSY: database is locked'' (Some ''SQLITE_BUSY'')"

definition constraintError :: error where
  "constraintError = sqliteError ''SQLITE_CONSTRAINT'' ''UNIQUE constraint failed: people''"

definition people :: table where
  "people = \<lparr>columns = [''id'', ''name''], primaryKey = ''id'', rows = []\<rparr>"

definition emptyWorld :: world where
  "emptyWorld = \<lparr>files = Map.empty, tables = Map.empty, faults = [], trace = []\<rparr>"

text \<open>A database that stays locked: the next six statements fail with \<open>SQLITE_BUSY\<close>.\<close>

definition lockedWorld :: world where
  "lockedWorld = emptyWorld\<lparr>faults := replicate 6 (Some busy)\<rparr>"

definition lf :: string where
  "lf = [CHR 0x0A]"

text \<open>Scenario A: a header, two rows, a blank line and a third row.\<close>

definition scenarioA :: string where
  "scenarioA = ''id,name'' @ lf @ ''1,Alice'' @ lf @ ''2,Bob'' @ lf @ lf @ ''3,Carol'' @ lf"

definition worldA :: world where
  "worldA = \<lparr>files = [''people.csv'' \<mapsto> scenarioA], tables = [''people'' \<mapsto> people],
             faults = [], trace = []\<rparr>"

text \<open>Scenario B: the second row of the customers file repeats the primary key of the first.\<close>

definition duplicateIds :: string where
  "duplicateIds = ''Index,Customer Id'' @ lf @ ''1,abc'' @ lf @ ''2,abc'' @ lf"

definition worldB :: world where
  "worldB = \<lparr>files = [customersCsv \<mapsto> duplicateIds,
                       organizationsCsv \<mapsto> ''Index,Organization Id'' @ lf @ ''1,xyz'' @ lf],
             tables = organizations_up (customers_up Map.empty), faults = [], trace = []\<rparr>"

text \<open>The same database with no input file on disk.\<close>

definition missingFiles :: world where
  "missingFiles = worldB\<lparr>files := Map.empty\<rparr>"

text \<open>Scenario A on a database whose second statement meets a lock once.\<close>

definition lockedOnce :: world where
  "lockedOnce = worldA\<lparr>faults := [None, Some busy]\<rparr>"

text \<open>The batch of scenario B, read and waiting for its transaction.\<close>

definition stagedB :: ingestion where
  "stagedB = foldl onData (enter worldB) (fst (parse duplicateIds))"

text \<open>Opening the file \<open>p\<close> or inserting into the table \<open>t\<close>.\<close>

fun touches :: "string \<Rightarrow> string \<Rightarrow> event \<Rightarrow> bool" where
  "touches p t (Open q) = (q = p)"
| "touches p t (Insert u r) = (u = t)"
| "touches p t _ = False"

text \<open>The batch of scenario A, read and waiting, on the database that meets a lock once.\<close>

definition stagedLocked :: ingestion where
  "stagedLocked = foldl onData (enter lockedOnce) (fst (parse scenarioA))"

section \<open>Fields that the steps leave alone\<close>

lemma emit_simps [simp]:
  "tables (emit ev w) = tables w"
  "files (emit ev w) = files w"
  "faults (emit ev w) = faults w"
  "trace (emit ev w) = trace w @ [ev]"
  "records (emit ev s) = records s"
  "totalInserted (emit ev s) = totalInserted s"
  by (simp_all add: emit_def)

lemma consoleLog_simps [simp]:
  "tables (consoleLog m w) = tables w"
  "files (consoleLog m w) = files w"
  "faults (consoleLog m w) = faults w"
  "trace (consoleLog m w) = trace w @ [ConsoleLog m]"
  "records (consoleLog m s) = records s"
  "totalInserted (consoleLog m s) = totalInserted s"
  by (simp_all add: consoleLog_def)

lemma delay_simps [simp]:
  "tables (delay ms w) = tables w"
  "files (delay ms w) = files w"
  "faults (delay ms w) = faults w"
  "trace (delay ms w) = trace w @ [Timeout ms]"
  "records (delay ms s) = records s"
  "totalInserted (delay ms s) = totalInserted s"
  by (simp_all add: delay_def)

lemma nextFault_fields:
  assumes "nextFault w = (f, w1)"
  shows "tables w1 = tables w" "files w1 = files w" "trace w1 = trace w"
    "records w1 = records w" "totalInserted w1 = totalInserted w"
  using assms by (auto simp: nextFault_def split: list.splits)

text \<open>
  With an integer bound, a call of the loop that starts within the bound ends with what a
  run of the operation returned; an invariant that the pause between attempts keeps holds of
  the world in which that run started.
\<close>

lemma retryLoop_outcome:
  assumes "I w"
    and "\<And>w0 e w1 a. I w0 \<Longrightarrow> operation w0 = (Inl e, w1) \<Longrightarrow>
           I (delay delayMs (consoleLog (retryMessage delayMs a (Num (of_int n))) w1))"
    and "nat (n - attempt) = k" and "attempt \<le> n"
    and "retryLoop operation (Num (of_int n)) delayMs attempt w = (r, w')"
  shows "\<exists>w0. I w0 \<and> operation w0 = (r, w')"
  using assms(1,3-)
proof (induction k arbitrary: attempt w)
  case 0
  then have eq: "attempt = n" by simp
  obtain x w1 where op: "operation w = (x, w1)" by (cases "operation w")
  from "0.prems"(4) eq op have "(r, w') = operation w"
    by (cases x) (simp_all add: retryLoop.simps[of operation "Num (of_int n)" delayMs n w])
  with "0.prems"(1) show ?case by metis
next
  case (Suc k)
  then have lt: "attempt < n" by simp
  note eq = retryLoop.simps[of operation "Num (of_int n)" delayMs attempt w]
  obtain x w1 where op: "operation w = (x, w1)" by (cases "operation w")
  show ?case
  proof (cases x)
    case (Inr v)
    with op lt Suc.prems(4) eq have "(r, w') = operation w" by simp
    with Suc.prems(1) show ?thesis by metis
  next
    case (Inl e)
    show ?thesis
    proof (cases "code e = Some ''SQLITE_BUSY''")
      case False
      with Inl op lt Suc.prems(4) eq have "(r, w') = operation w" by simp
      with Suc.prems(1) show ?thesis by metis
    next
      case True
      let ?w2 = "delay delayMs (consoleLog (retryMessage delayMs attempt (Num (of_int n))) w1)"
      have I2: "I ?w2" using Suc.prems(1) assms(2) op Inl by blast
      have r2: "retryLoop operation (Num (of_int n)) delayMs (attempt + 1) ?w2 = (r, w')"
        using True Inl op lt Suc.prems(4) eq by simp
      have k: "nat (n - (attempt + 1)) = k" using Suc.prems(2) by simp
      have le: "attempt + 1 \<le> n" using lt by simp
      from Suc.IH[OF I2 k le r2] show ?thesis .
    qed
  qed
qed

lemma trxInsert_fields:
  assumes "trxInsert t r w = (x, w1)"
  shows "trace w1 = trace w @ [Insert t r]" "files w1 = files w"
    "records w1 = records w" "totalInserted w1 = totalInserted w"
  using assms
  by (auto simp: trxInsert_def nextFault_def emit_def split: list.splits option.splits if_splits)

lemma trxInsert_ok:
  assumes "trxInsert t r w = (Inr u, w1)"
  shows "\<exists>tb. tables w t = Some tb \<and> tables w1 = (tables w)(t \<mapsto> tb\<lparr>rows := rows tb @ [r]\<rparr>)"
  using assms
  by (auto simp: trxInsert_def nextFault_def emit_def split: list.splits option.splits if_splits)

lemma insertRecords_fields:
  assumes "insertRecords t rs s = (x, s1)"
  shows "files s1 = files s \<and> records s1 = records s \<and>
         (\<exists>evs. trace s1 = trace s @ evs \<and> list_all (writeEvent t) evs)"
  using assms
proof (induction rs arbitrary: s)
  case Nil
  then show ?case by simp
next
  case (Cons r rs)
  obtain y s0 where ins: "trxInsert t r s = (y, s0)" by (cases "trxInsert t r s")
  note f = trxInsert_fields[OF ins]
  show ?case
  proof (cases y)
    case (Inl e)
    with ins Cons.prems f show ?thesis by auto
  next
    case (Inr u)
    have rec: "insertRecords t rs (countInserted t s0) = (x, s1)"
      using Cons.prems ins Inr by simp
    have s3: "files (countInserted t s0) = files s" "records (countInserted t s0) = records s"
      "\<exists>evs. trace (countInserted t s0) = trace s @ Insert t r # evs \<and>
             list_all (writeEvent t) evs"
      using f by (auto simp: countInserted_def Let_def)
    from Cons.IH[OF rec] s3 show ?thesis by auto
  qed
qed

lemma insertRecords_ok:
  assumes "insertRecords t rs s = (Inr u, s1)" and "tables s t = Some tb"
  shows "tables s1 = (tables s)(t \<mapsto> tb\<lparr>rows := rows tb @ rs\<rparr>)"
  using assms
proof (induction rs arbitrary: s tb)
  case Nil
  then show ?case by (simp add: map_upd_triv)
next
  case (Cons r rs)
  obtain y s0 where ins: "trxInsert t r s = (y, s0)" by (cases "trxInsert t r s")
  show ?case
  proof (cases y)
    case (Inl e)
    with ins Cons.prems show ?thesis by simp
  next
    case (Inr v)
    have rec: "insertRecords t rs (countInserted t s0) = (Inr u, s1)"
      using Cons.prems ins Inr by simp
    from trxInsert_ok ins Inr Cons.prems(2)
    have t0: "tables s0 = (tables s)(t \<mapsto> tb\<lparr>rows := rows tb @ [r]\<rparr>)" by fastforce
    have t3: "tables (countInserted t s0) = tables s0" by (simp add: countInserted_def Let_def)
    have "tables (countInserted t s0) t = Some (tb\<lparr>rows := rows tb @ [r]\<rparr>)" using t0 t3 by simp
    from Cons.IH[OF rec this] show ?thesis using t0 t3 by (auto simp: fun_eq_iff)
  qed
qed

lemma insertion_fields:
  assumes "insertion t s = (x, s1)"
  shows "files s1 = files s" "records s1 = records s"
    "\<exists>evs. trace s1 = trace s @ evs \<and> list_all (writeEvent t) evs"
proof -
  obtain y s0 where h: "insertRecords t (records s) (emit Begin s) = (y, s0)"
    by (cases "insertRecords t (records s) (emit Begin s)")
  from insertRecords_fields[OF h] obtain evs where
    f: "files s0 = files s" "records s0 = records s" "trace s0 = trace s @ Begin # evs"
       "list_all (writeEvent t) evs" by auto
  from assms h have "s1 = emit Commit s0 \<or> s1 = emit Rollback (s0\<lparr>tables := tables s\<rparr>)"
    by (cases y) (auto simp: insertion_def transaction_def)
  with f show "files s1 = files s" "records s1 = records s"
    "\<exists>evs. trace s1 = trace s @ evs \<and> list_all (writeEvent t) evs"
    by auto
qed

lemma insertion_failed:
  assumes "insertion t s = (Inl e, s1)"
  shows "tables s1 = tables s"
proof -
  obtain y s0 where h: "insertRecords t (records s) (emit Begin s) = (y, s0)"
    by (cases "insertRecords t (records s) (emit Begin s)")
  with assms show ?thesis
    by (cases y) (auto simp: insertion_def transaction_def)
qed

lemma insertion_ok:
  assumes "insertion t s = (Inr u, s1)" and "tables s t = Some tb"
  shows "tables s1 = (tables s)(t \<mapsto> tb\<lparr>rows := rows tb @ records s\<rparr>)"
proof -
  obtain y s0 where h: "insertRecords t (records s) (emit Begin s) = (y, s0)"
    by (cases "insertRecords t (records s) (emit Begin s)")
  with assms(1) have y: "y = Inr u" and s1: "s1 = emit Commit s0"
    by (cases y; auto simp: insertion_def transaction_def)+
  from insertRecords_ok[OF h[unfolded y]] assms(2) s1 show ?thesis by simp
qed


lemma foldl_onData:
  "files (foldl onData s recs) = files s"
  "tables (foldl onData s recs) = tables s"
  "faults (foldl onData s recs) = faults s"
  "totalInserted (foldl onData s recs) = totalInserted s"
  "records (foldl onData s recs) = records s @ recs"
  "trace (foldl onData s recs) = trace s @ map Data recs"
  by (induction recs arbitrary: s) (simp_all add: onData_def)

lemma onEnd_outcome:
  assumes "onEnd t s = (out, s1)"
  shows "files s1 = files s"
    and "\<exists>evs. trace s1 = trace s @ End # evs \<and> list_all (writeEvent t) evs"
    and "\<exists>e. out = Rejected e \<and> tables s1 = tables s \<or>
             out = Resolved () \<and>
             (\<forall>tb. tables s t = Some tb \<longrightarrow>
                   tables s1 = (tables s)(t \<mapsto> tb\<lparr>rows := rows tb @ records s\<rparr>))"
proof -
  define I where "I = (\<lambda>s0 :: ingestion. tables s0 = tables s \<and> files s0 = files s \<and>
     records s0 = records s \<and>
     (\<exists>evs. trace s0 = trace s @ End # evs \<and> list_all (writeEvent t) evs))"
  obtain r s2 where run: "retryLoop (insertion t) (Num (of_int 5)) (Num 1000) 1 (emit End s) = (r, s2)"
    by (cases "retryLoop (insertion t) (Num (of_int 5)) (Num 1000) 1 (emit End s)")
  have I0: "I (emit End s)" by (simp add: I_def)
  have step: "\<And>w0 e w1 a. I w0 \<Longrightarrow> insertion t w0 = (Inl e, w1) \<Longrightarrow>
           I (delay (Num 1000) (consoleLog (retryMessage (Num 1000) a (Num (of_int 5))) w1))"
  proof -
    fix w0 e w1 a assume a: "I w0" "insertion t w0 = (Inl e, w1)"
    from insertion_fields[OF a(2)] insertion_failed[OF a(2)] a(1)
    show "I (delay (Num 1000) (consoleLog (retryMessage (Num 1000) a (Num (of_int 5))) w1))"
      by (auto simp: I_def)
  qed
  have "\<exists>w0. I w0 \<and> insertion t w0 = (r, s2)"
    by (rule retryLoop_outcome[where I = I and k = 4, OF I0 step _ _ run]) simp_all
  then obtain w0 where w0: "I w0" "insertion t w0 = (r, s2)" by auto
  have run5: "retryLoop (insertion t) (Num 5) (Num 1000) 1 (emit End s) = (r, s2)"
    using run by simp
  note f = insertion_fields[OF w0(2)]
  have s2: "files s2 = files s" "records s2 = records s"
    "\<exists>evs. trace s2 = trace s @ End # evs \<and> list_all (writeEvent t) evs"
    using f w0(1) by (auto simp: I_def)
  show "files s1 = files s"
    using assms run5 s2 by (cases r) (auto simp: onEnd_def retryOperation_def)
  show "\<exists>evs. trace s1 = trace s @ End # evs \<and> list_all (writeEvent t) evs"
    using assms run5 s2 by (cases r) (auto simp: onEnd_def retryOperation_def)
  show "\<exists>e. out = Rejected e \<and> tables s1 = tables s \<or>
             out = Resolved () \<and>
             (\<forall>tb. tables s t = Some tb \<longrightarrow>
                   tables s1 = (tables s)(t \<mapsto> tb\<lparr>rows := rows tb @ records s\<rparr>))"
  proof (cases r)
    case (Inl e)
    with insertion_failed[of t w0 e s2] w0 assms run5 show ?thesis
      by (auto simp: onEnd_def retryOperation_def I_def)
  next
    case (Inr u)
    have "\<And>tb. tables s t = Some tb \<Longrightarrow>
            tables s2 = (tables s)(t \<mapsto> tb\<lparr>rows := rows tb @ records s\<rparr>)"
      using insertion_ok[of t w0 u s2] w0 Inr by (auto simp: I_def)
    with Inr assms run5 show ?thesis
      by (auto simp: onEnd_def retryOperation_def)
  qed
qed

lemma leave_simps [simp]:
  "files (leave s) = files s" "tables (leave s) = tables s"
  "faults (leave s) = faults s" "trace (leave s) = trace s"
  by (simp_all add: leave_def)

lemma enter_simps [simp]:
  "files (enter w) = files w" "tables (enter w) = tables w"
  "faults (enter w) = faults w" "trace (enter w) = trace w"
  "records (enter w) = []" "totalInserted (enter w) = 0"
  by (simp_all add: enter_def)

lemma processCSVStream_missing:
  assumes "files w p = None"
  shows "processCSVStream p t w =
    (Uncaught (Error (''ENOENT: no such file or directory, open '' @ p) (Some ''ENOENT'')),
     emit (Open p) w)"
  using assms by (simp add: processCSVStream_def leave_def enter_def emit_def)

lemma processCSVStream_parse_error:
  assumes "files w p = Some content" "parse content = (recs, Some e)"
    "processCSVStream p t w = (out, w1)"
  shows "out = Rejected e" "tables w1 = tables w" "files w1 = files w"
    "trace w1 = trace w @ Open p # map Data recs"
  using assms by (auto simp: processCSVStream_def foldl_onData)

lemma processCSVStream_parsed:
  assumes "files w p = Some content" "parse content = (recs, None)"
    "processCSVStream p t w = (out, w1)"
  shows "files w1 = files w"
    and "\<exists>evs. trace w1 = trace w @ Open p # map Data recs @ End # evs \<and>
               list_all (writeEvent t) evs"
    and "\<exists>e. out = Rejected e \<and> tables w1 = tables w \<or>
             out = Resolved () \<and>
             (\<forall>tb. tables w t = Some tb \<longrightarrow>
                   tables w1 = (tables w)(t \<mapsto> tb\<lparr>rows := rows tb @ recs\<rparr>))"
proof -
  let ?s = "foldl onData (enter (emit (Open p) w)) recs"
  obtain s1 where e: "onEnd t ?s = (out, s1)" and w1: "w1 = leave s1"
    using assms by (auto simp: processCSVStream_def split: prod.splits)
  note o = onEnd_outcome[OF e]
  show "files w1 = files w" using o(1) w1 by (simp add: foldl_onData)
  show "\<exists>evs. trace w1 = trace w @ Open p # map Data recs @ End # evs \<and>
               list_all (writeEvent t) evs"
    using o(2) w1 by (simp add: foldl_onData)
  show "\<exists>e. out = Rejected e \<and> tables w1 = tables w \<or>
             out = Resolved () \<and>
             (\<forall>tb. tables w t = Some tb \<longrightarrow>
                   tables w1 = (tables w)(t \<mapsto> tb\<lparr>rows := rows tb @ recs\<rparr>))"
    using o(3) w1 by (simp add: foldl_onData)
qed

lemma processCSVStream_failed:
  assumes "processCSVStream p t w = (out, w1)" "out \<noteq> Resolved ()"
  shows "tables w1 = tables w"
proof (cases "files w p")
  case None
  with assms processCSVStream_missing[OF None, of t] have "w1 = emit (Open p) w" by simp
  then show ?thesis by simp
next
  case (Some content)
  obtain recs err where pr: "parse content = (recs, err)" by (cases "parse content")
  show ?thesis
  proof (cases err)
    case None
    with processCSVStream_parsed(3)[OF Some pr[unfolded None] assms(1)] assms(2)
    show ?thesis by auto
  next
    case (Some e)
    with processCSVStream_parse_error(2)[OF \<open>files w p = Some content\<close> pr[unfolded Some] assms(1)]
    show ?thesis by simp
  qed
qed

lemma processCSVStream_resolved:
  assumes "processCSVStream p t w = (Resolved (), w1)"
  shows "\<exists>content recs. files w p = Some content \<and> parse content = (recs, None) \<and>
           (\<forall>tb. tables w t = Some tb \<longrightarrow>
                 tables w1 = (tables w)(t \<mapsto> tb\<lparr>rows := rows tb @ recs\<rparr>))"
proof (cases "files w p")
  case None
  with assms processCSVStream_missing[OF None, of t] show ?thesis by simp
next
  case (Some content)
  obtain recs err where pr: "parse content = (recs, err)" by (cases "parse content")
  show ?thesis
  proof (cases err)
    case None
    with processCSVStream_parsed(3)[OF Some pr[unfolded None] assms(1)] Some pr
    show ?thesis by auto
  next
    case (Some e)
    with processCSVStream_parse_error(1)[OF \<open>files w p = Some content\<close> pr[unfolded Some] assms(1)]
    show ?thesis by simp
  qed
qed

lemma processCSVStream_phases:
  assumes "processCSVStream p t w = (out, w1)"
  shows "\<exists>reading writing.
           trace w1 = trace w @ reading @ writing \<and>
           list_all (readEvent p) reading \<and>
           list_all (writeEvent t) writing \<and>
           (writing = [] \<or>
            (\<exists>content. files w p = Some content \<and> snd (parse content) = None \<and>
               reading = Open p # map Data (fst (parse content)) @ [End]))"
proof (cases "files w p")
  case None
  with assms processCSVStream_missing[OF None, of t]
  have "trace w1 = trace w @ [Open p] @ []" by auto
  then show ?thesis by (intro exI[of _ "[Open p]"] exI[of _ "[]"]) simp
next
  case (Some content)
  obtain recs err where pr: "parse content = (recs, err)" by (cases "parse content")
  have sd: "list_all (readEvent p) (map Data recs)" by (induction recs) simp_all
  show ?thesis
  proof (cases err)
    case None
    from processCSVStream_parsed(2)[OF Some pr[unfolded None] assms(1)]
    obtain evs where evs: "trace w1 = trace w @ (Open p # map Data recs @ [End]) @ evs"
      "list_all (writeEvent t) evs" by auto
    show ?thesis
      using evs Some pr None sd
      by (intro exI[of _ "Open p # map Data recs @ [End]"] exI[of _ evs]) simp
  next
    case (Some e)
    from processCSVStream_parse_error(4)[OF \<open>files w p = Some content\<close> pr[unfolded Some] assms(1)]
    have "trace w1 = trace w @ (Open p # map Data recs) @ []" by simp
    then show ?thesis using sd
      by (intro exI[of _ "Open p # map Data recs"] exI[of _ "[]"]) simp
  qed
qed

section \<open>The retry loop\<close>










text \<open>
  C1, as the code behaves: the claim asks that an operation which fails with the transient
  lock condition on every attempt is tried exactly \<open>maxAttempts\<close> times and that the call then
  ends with the final exhaustion error, not with the last underlying error. On a database that
  stays locked, with the default five attempts, the statement is sent five times and the loop
  waits four times, as claimed; but the call ends with the raw \<open>SQLITE_BUSY\<close> error of the
  fifth attempt, which is not the error \<open>Operation failed after 5 attempts\<close>: the fifth
  failure takes the \<open>else\<close> branch of line 39 and rethrows before the loop can end.
\<close>

theorem retryOperation_final_error_bypassed:
  "fst (retryOperation (raw ''SELECT 1'') (Num 5) (Num 1000) lockedWorld) = Inl busy \<and>
   busy \<noteq> exhausted (Num 5) \<and>
   faults (snd (retryOperation (raw ''SELECT 1'') (Num 5) (Num 1000) lockedWorld)) = [Some busy] \<and>
   trace (snd (retryOperation (raw ''SELECT 1'') (Num 5) (Num 1000) lockedWorld)) =
     [Raw ''SELECT 1'',
      ConsoleLog ''Database locked, retrying in 1000ms... (Attempt 1/5)'', Timeout (Num 1000),
      Raw ''SELECT 1'',
      ConsoleLog ''Database locked, retrying in 1000ms... (Attempt 2/5)'', Timeout (Num 1000),
      Raw ''SELECT 1'',
      ConsoleLog ''Database locked, retrying in 1000ms... (Attempt 3/5)'', Timeout (Num 1000),
      Raw ''SELECT 1'',
      ConsoleLog ''Database locked, retrying in 1000ms... (Attempt 4/5)'', Timeout (Num 1000),
      Raw ''SELECT 1'']"
  by code_simp

text \<open>
  C4: when the first attempt fails with an error whose code is not \<open>SQLITE_BUSY\<close>,
  \<open>retryOperation\<close> ends with that very error and with the world exactly as that one
  attempt left it: no second attempt, no log line, no delay.
\<close>

theorem retryOperation_non_transient:
  assumes "le_number (Num 1) maxRetries" and "operation w = (Inl e, w1)"
    and "code e \<noteq> Some ''SQLITE_BUSY''"
  shows "retryOperation operation maxRetries delayMs w = (Inl e, w1)"
  using assms by (simp add: retryOperation_def retryLoop.simps)

theorem retryOperation_non_transient_witness:
  "retryOperation (raw ''SELECT 1'') (Num 5) (Num 1000)
     (emptyWorld\<lparr>faults := [Some constraintError]\<rparr>) =
     (Inl constraintError, emptyWorld\<lparr>trace := [Raw ''SELECT 1'']\<rparr>)"
proof -
  have a: "raw ''SELECT 1'' (emptyWorld\<lparr>faults := [Some constraintError]\<rparr>) =
     (Inl constraintError, emptyWorld\<lparr>trace := [Raw ''SELECT 1'']\<rparr>)"
    by (simp add: raw_def nextFault_def emit_def emptyWorld_def)
  have b: "code constraintError \<noteq> Some ''SQLITE_BUSY''"
    by (simp add: constraintError_def sqliteError_def)
  have c: "le_number (Num 1) (Num 5)" by simp
  show ?thesis
    by (rule retryOperation_non_transient
          [of "Num 5" "raw ''SELECT 1''" "emptyWorld\<lparr>faults := [Some constraintError]\<rparr>",
           OF c a b])
qed




section \<open>Reading before writing, and the order of the rows\<close>





lemma scenarioA_parse:
  "parse scenarioA =
     ([[(''id'', ''1''), (''name'', ''Alice'')],
       [(''id'', ''2''), (''name'', ''Bob'')],
       [(''id'', ''3''), (''name'', ''Carol'')]], None)"
  by code_simp


text \<open>
  C8: after a call that resolves, the target table holds its former rows followed by the
  records of the file in the order the parser produced them; reading the primary-key column of
  the new rows in insertion order gives the keys of the records in their original order.
\<close>

theorem insertion_order_preserved:
  assumes "processCSVStream filePath tableName w = (Resolved (), w')"
    and "tables w tableName = Some t"
  shows "\<exists>content t'.
           files w filePath = Some content \<and> snd (parse content) = None \<and>
           tables w' tableName = Some t' \<and>
           rows t' = rows t @ fst (parse content) \<and>
           map (\<lambda>r. map_of r (primaryKey t')) (drop (length (rows t)) (rows t')) =
             map (\<lambda>r. map_of r (primaryKey t)) (fst (parse content))"
proof -
  from processCSVStream_resolved[OF assms(1)] assms(2) obtain content recs where
    h: "files w filePath = Some content" "parse content = (recs, None)"
       "tables w' = (tables w)(tableName \<mapsto> t\<lparr>rows := rows t @ recs\<rparr>)"
    by blast
  show ?thesis
    using h by (intro exI[of _ content] exI[of _ "t\<lparr>rows := rows t @ recs\<rparr>"]) simp
qed

theorem insertion_order_preserved_witness:
  "map (\<lambda>r. map_of r ''id'')
     (rows (the (tables (snd (processCSVStream ''people.csv'' ''people'' worldA)) ''people''))) =
   [Some ''1'', Some ''2'', Some ''3'']"
proof -
  let ?run = "processCSVStream ''people.csv'' ''people'' worldA"
  have "fst ?run = Resolved ()" by code_simp
  then have run: "?run = (Resolved (), snd ?run)" by (metis prod.collapse)
  have tb: "tables worldA ''people'' = Some people" by (simp add: worldA_def)
  from insertion_order_preserved[OF run tb] obtain content t' where
    h: "files worldA ''people.csv'' = Some content"
       "tables (snd ?run) ''people'' = Some t'"
       "rows t' = rows people @ fst (parse content)"
    by blast
  from h(1) have "content = scenarioA" by (simp add: worldA_def)
  with h(2,3) show ?thesis by (simp add: scenarioA_parse people_def)
qed

section \<open>Atomicity and the reported count\<close>

lemma insertRecords_append:
  "insertRecords t (pre @ rest) s =
     (case insertRecords t pre s of
        (Inl e, s1) \<Rightarrow> (Inl e, s1)
      | (Inr u, s1) \<Rightarrow> insertRecords t rest s1)"
proof (induction pre arbitrary: s)
  case Nil
  show ?case by simp
next
  case (Cons r pre)
  obtain y s0 where ins: "trxInsert t r s = (y, s0)" by (cases "trxInsert t r s")
  show ?case using ins Cons.IH by (cases y) simp_all
qed

lemma insertRecords_failing_insert:
  assumes "insertRecords t pre s = (Inr (), s1)" and "trxInsert t r s1 = (Inl e, s2)"
  shows "insertRecords t (pre @ r # post) s = (Inl e, s2)"
  using assms by (simp add: insertRecords_append)

lemma insertRecords_no_table:
  assumes "insertRecords t rs s = (Inr u, s1)" and "tables s t = None"
  shows "tables s1 = tables s"
proof (cases rs)
  case Nil
  with assms show ?thesis by simp
next
  case (Cons r rest)
  obtain y s0 where ins: "trxInsert t r s = (y, s0)" by (cases "trxInsert t r s")
  show ?thesis
  proof (cases y)
    case (Inl e)
    with ins Cons assms show ?thesis by simp
  next
    case (Inr v)
    with ins trxInsert_ok[of t r s v s0] assms(2) show ?thesis by simp
  qed
qed

lemma insertion_all_or_nothing:
  "tables (snd (insertion t s)) = tables s \<or>
   fst (insertion t s) = Inr () \<and>
   (\<exists>tb. tables s t = Some tb \<and>
         tables (snd (insertion t s)) = (tables s)(t \<mapsto> tb\<lparr>rows := rows tb @ records s\<rparr>))"
proof -
  obtain x s1 where run: "insertion t s = (x, s1)" by (cases "insertion t s")
  show ?thesis
  proof (cases x)
    case (Inl e)
    with run insertion_failed[of t s e s1] show ?thesis by simp
  next
    case (Inr u)
    show ?thesis
    proof (cases "tables s t")
      case (Some tb)
      with run Inr insertion_ok[of t s u s1 tb] show ?thesis by simp
    next
      case None
      obtain y s0 where h: "insertRecords t (records s) (emit Begin s) = (y, s0)"
        by (cases "insertRecords t (records s) (emit Begin s)")
      with run Inr have y: "y = Inr u" and s1: "s1 = emit Commit s0"
        by (cases y; auto simp: insertion_def transaction_def)+
      from insertRecords_no_table[OF h[unfolded y]] None have "tables s0 = tables s" by simp
      with run s1 show ?thesis by simp
    qed
  qed
qed

text \<open>
  C2: when the insertion of one record of the batch fails (the records before it went in, and
  this INSERT is refused, whatever its error: a constraint, a lock, anything the engine
  raises), the attempt ends with that error, its transaction is rolled back, and every table,
  hence the row count of the target table, is as it was before the attempt. An attempt commits
  the whole batch or changes nothing, and a call of \<open>processCSVStream\<close> that does not
  resolve leaves every table as it was before the call.
\<close>

theorem failed_insert_rolls_back:
  "(records s = pre @ r # post \<and>
    insertRecords tableName pre (emit Begin s) = (Inr (), s1) \<and>
    trxInsert tableName r s1 = (Inl e, s2) \<longrightarrow>
      insertion tableName s = (Inl e, emit Rollback (s2\<lparr>tables := tables s\<rparr>)) \<and>
      tables (snd (insertion tableName s)) = tables s \<and>
      map_option (\<lambda>t. length (rows t)) (tables (snd (insertion tableName s)) tableName) =
        map_option (\<lambda>t. length (rows t)) (tables s tableName)) \<and>
   (tables (snd (insertion tableName s)) = tables s \<or>
    fst (insertion tableName s) = Inr () \<and>
    (\<exists>tb. tables s tableName = Some tb \<and>
          tables (snd (insertion tableName s)) =
            (tables s)(tableName \<mapsto> tb\<lparr>rows := rows tb @ records s\<rparr>))) \<and>
   (fst (processCSVStream filePath tableName w) \<noteq> Resolved () \<longrightarrow>
      tables (snd (processCSVStream filePath tableName w)) = tables w)"
proof -
  have a: "insertion tableName s = (Inl e, emit Rollback (s2\<lparr>tables := tables s\<rparr>)) \<and>
      tables (snd (insertion tableName s)) = tables s \<and>
      map_option (\<lambda>t. length (rows t)) (tables (snd (insertion tableName s)) tableName) =
        map_option (\<lambda>t. length (rows t)) (tables s tableName)"
    if h: "records s = pre @ r # post"
      "insertRecords tableName pre (emit Begin s) = (Inr (), s1)"
      "trxInsert tableName r s1 = (Inl e, s2)"
  proof -
    from insertRecords_failing_insert[OF h(2,3), of post] h(1)
    have "insertion tableName s = (Inl e, emit Rollback (s2\<lparr>tables := tables s\<rparr>))"
      by (simp add: insertion_def transaction_def)
    then show ?thesis by simp
  qed
  have c: "tables (snd (processCSVStream filePath tableName w)) = tables w"
    if "fst (processCSVStream filePath tableName w) \<noteq> Resolved ()"
    using processCSVStream_failed[of filePath tableName w
            "fst (processCSVStream filePath tableName w)"
            "snd (processCSVStream filePath tableName w)"] that by simp
  from a insertion_all_or_nothing[of tableName s] c show ?thesis by blast
qed

theorem failed_insert_rolls_back_witness:
  "fst (insertion ''customers'' stagedB) =
     Inl (sqliteError ''SQLITE_CONSTRAINT'' ''UNIQUE constraint failed: customers'') \<and>
   tables (snd (insertion ''customers'' stagedB)) = tables stagedB \<and>
   fst (insertion ''people'' stagedLocked) = Inl busy \<and>
   tables (snd (insertion ''people'' stagedLocked)) = tables stagedLocked \<and>
   fst (processCSVStream customersCsv ''customers'' worldB) \<noteq> Resolved () \<and>
   tables (snd (processCSVStream customersCsv ''customers'' worldB)) = tables worldB"
proof -
  let ?r1 = "[(''Index'', ''1''), (''Customer Id'', ''abc'')]"
  let ?r2 = "[(''Index'', ''2''), (''Customer Id'', ''abc'')]"
  let ?s1 = "snd (insertRecords ''customers'' [?r1] (emit Begin stagedB))"
  let ?s2 = "snd (trxInsert ''customers'' ?r2 ?s1)"
  let ?e = "sqliteError ''SQLITE_CONSTRAINT'' ''UNIQUE constraint failed: customers''"
  have b1: "records stagedB = [?r1] @ ?r2 # []" by code_simp
  have "fst (insertRecords ''customers'' [?r1] (emit Begin stagedB)) = Inr ()" by code_simp
  then have b2: "insertRecords ''customers'' [?r1] (emit Begin stagedB) = (Inr (), ?s1)"
    by (metis prod.collapse)
  have "fst (trxInsert ''customers'' ?r2 ?s1) = Inl ?e" by code_simp
  then have b3: "trxInsert ''customers'' ?r2 ?s1 = (Inl ?e, ?s2)" by (metis prod.collapse)
  let ?p1 = "[(''id'', ''1''), (''name'', ''Alice'')]"
  let ?p2 = "[(''id'', ''2''), (''name'', ''Bob'')]"
  let ?p3 = "[(''id'', ''3''), (''name'', ''Carol'')]"
  let ?t1 = "snd (insertRecords ''people'' [?p1] (emit Begin stagedLocked))"
  let ?t2 = "snd (trxInsert ''people'' ?p2 ?t1)"
  have c1: "records stagedLocked = [?p1] @ ?p2 # [?p3]" by code_simp
  have "fst (insertRecords ''people'' [?p1] (emit Begin stagedLocked)) = Inr ()" by code_simp
  then have c2: "insertRecords ''people'' [?p1] (emit Begin stagedLocked) = (Inr (), ?t1)"
    by (metis prod.collapse)
  have "fst (trxInsert ''people'' ?p2 ?t1) = Inl busy" by code_simp
  then have c3: "trxInsert ''people'' ?p2 ?t1 = (Inl busy, ?t2)" by (metis prod.collapse)
  have d: "fst (processCSVStream customersCsv ''customers'' worldB) \<noteq> Resolved ()" by code_simp
  from failed_insert_rolls_back[of stagedB "[?r1]" ?r2 "[]" "''customers''" ?s1 ?e ?s2
         customersCsv worldB] b1 b2 b3 d
  have x: "fst (insertion ''customers'' stagedB) = Inl ?e"
    "tables (snd (insertion ''customers'' stagedB)) = tables stagedB"
    "tables (snd (processCSVStream customersCsv ''customers'' worldB)) = tables worldB"
    by simp_all
  from failed_insert_rolls_back[of stagedLocked "[?p1]" ?p2 "[?p3]" "''people''" ?t1 busy ?t2
         customersCsv worldB] c1 c2 c3
  have y: "fst (insertion ''people'' stagedLocked) = Inl busy"
    "tables (snd (insertion ''people'' stagedLocked)) = tables stagedLocked"
    by simp_all
  from x y d show ?thesis by simp
qed

text \<open>
  C3, as the code behaves: the claim asks that a call which succeeds reports the number of
  records of the batch, also when earlier attempts failed transiently. \<open>totalInserted\<close>
  is declared outside the retried operation and is not reset when an attempt is rolled back.
  For the three records of scenario A, a lock met at the second insert of the first attempt
  and a second attempt that succeeds, the table ends with three rows and the call reports 4.
\<close>

theorem reported_count_includes_rolled_back_inserts:
  "fst (processCSVStream ''people.csv'' ''people'' lockedOnce) = Resolved () \<and>
   length (fst (parse scenarioA)) = 3 \<and>
   map_option (\<lambda>t. length (rows t))
     (tables (snd (processCSVStream ''people.csv'' ''people'' lockedOnce)) ''people'') = Some 3 \<and>
   last (trace (snd (processCSVStream ''people.csv'' ''people'' lockedOnce))) =
     ConsoleLog ''Finished inserting 4 records into people''"
  by code_simp

section \<open>The run\<close>

lemma checkDatabaseConnection_ok:
  assumes "checkDatabaseConnection w = (True, w1)"
  shows "tables w1 = tables w" "files w1 = files w"
    "trace w1 = trace w @ [Raw ''SELECT 1'', ConsoleLog ''Database connected successfully'']"
  using assms
  by (auto simp: checkDatabaseConnection_def raw_def nextFault_def emit_def consoleLog_def
           split: list.splits option.splits)

lemma finallyBlock_simps [simp]:
  "tables (finallyBlock w) = tables w"
  "trace (finallyBlock w) = trace w @ [Destroy, ConsoleLog ''Database connection closed'']"
  by (simp_all add: finallyBlock_def destroy_def)

lemma readEvent_touches:
  "readEvent customersCsv ev \<Longrightarrow> \<not> touches organizationsCsv ''organizations'' ev"
  by (cases ev) (simp_all add: customersCsv_def organizationsCsv_def)

lemma writeEvent_touches:
  "writeEvent ''customers'' ev \<Longrightarrow> \<not> touches organizationsCsv ''organizations'' ev"
  by (cases ev) simp_all

text \<open>
  C5: when the connection is up and the ingestion of the first file does not resolve (it is
  rejected, after the retries or at once, or the process dies), the run leaves every table as
  it found it and, from its start to its end, neither opens the second file nor sends an
  INSERT for the second table.
\<close>

theorem later_file_never_attempted:
  assumes "checkDatabaseConnection w = (True, w1)"
    and "processCSVStream customersCsv ''customers''
           (consoleLog ''Starting to insert customers'' w1) = (out, w2)"
    and "out \<noteq> Resolved ()"
  shows "tables (snd (main w)) = tables w \<and>
         (\<exists>evs. trace (snd (main w)) = trace w @ evs \<and>
                list_all (\<lambda>ev. \<not> touches organizationsCsv ''organizations'' ev) evs)"
proof -
  note c = checkDatabaseConnection_ok[OF assms(1)]
  from processCSVStream_phases[OF assms(2)] obtain reading writing where
    ph: "trace w2 = trace (consoleLog ''Starting to insert customers'' w1) @ reading @ writing"
        "list_all (readEvent customersCsv) reading" "list_all (writeEvent ''customers'') writing"
    by blast
  have tb: "tables w2 = tables w"
    using processCSVStream_failed[OF assms(2,3)] c(1) by simp
  have quiet: "list_all (\<lambda>ev. \<not> touches organizationsCsv ''organizations'' ev) (reading @ writing)"
    using ph(2,3) readEvent_touches writeEvent_touches by (auto simp: list_all_iff)
  have tr: "trace w2 = trace w @ [Raw ''SELECT 1'', ConsoleLog ''Database connected successfully'',
              ConsoleLog ''Starting to insert customers''] @ reading @ writing"
    using ph(1) c(3) by simp
  have body: "tryBlock w = (out, w2)"
    using assms by (cases out) (simp_all add: tryBlock_def)
  show ?thesis
  proof (cases out)
    case (Resolved u)
    with assms(3) show ?thesis by simp
  next
    case (Rejected e)
    with body have m: "snd (main w) = finallyBlock (emit (ConsoleError ''Error:'' (Some e)) w2)"
      by (simp add: main_def)
    have "trace (snd (main w)) = trace w @
        ([Raw ''SELECT 1'', ConsoleLog ''Database connected successfully'',
          ConsoleLog ''Starting to insert customers''] @ (reading @ writing) @
         [ConsoleError ''Error:'' (Some e), Destroy, ConsoleLog ''Database connection closed''])"
      using m tr by simp
    moreover have "list_all (\<lambda>ev. \<not> touches organizationsCsv ''organizations'' ev)
        ([Raw ''SELECT 1'', ConsoleLog ''Database connected successfully'',
          ConsoleLog ''Starting to insert customers''] @ (reading @ writing) @
         [ConsoleError ''Error:'' (Some e), Destroy, ConsoleLog ''Database connection closed''])"
      using quiet by simp
    moreover have "tables (snd (main w)) = tables w" using m tb by simp
    ultimately show ?thesis by blast
  next
    case (Uncaught e)
    with body have m: "snd (main w) = w2" by (simp add: main_def)
    have "trace (snd (main w)) = trace w @
        ([Raw ''SELECT 1'', ConsoleLog ''Database connected successfully'',
          ConsoleLog ''Starting to insert customers''] @ (reading @ writing))"
      using m tr by simp
    moreover have "list_all (\<lambda>ev. \<not> touches organizationsCsv ''organizations'' ev)
        ([Raw ''SELECT 1'', ConsoleLog ''Database connected successfully'',
          ConsoleLog ''Starting to insert customers''] @ (reading @ writing))"
      using quiet by simp
    moreover have "tables (snd (main w)) = tables w" using m tb by simp
    ultimately show ?thesis by blast
  qed
qed

theorem later_file_never_attempted_witness:
  "fst (processCSVStream customersCsv ''customers''
          (consoleLog ''Starting to insert customers'' (snd (checkDatabaseConnection worldB)))) =
     Rejected (sqliteError ''SQLITE_CONSTRAINT'' ''UNIQUE constraint failed: customers'') \<and>
   map_option rows (tables (snd (main worldB)) ''customers'') = Some [] \<and>
   (\<exists>evs. trace (snd (main worldB)) = trace worldB @ evs \<and>
          list_all (\<lambda>ev. \<not> touches organizationsCsv ''organizations'' ev) evs)"
proof -
  let ?w1 = "snd (checkDatabaseConnection worldB)"
  let ?run = "processCSVStream customersCsv ''customers''
                (consoleLog ''Starting to insert customers'' ?w1)"
  have "fst (checkDatabaseConnection worldB) = True" by code_simp
  then have a: "checkDatabaseConnection worldB = (True, ?w1)" by (metis prod.collapse)
  have b: "?run = (fst ?run, snd ?run)" by simp
  have r: "fst ?run = Rejected (sqliteError ''SQLITE_CONSTRAINT'' ''UNIQUE constraint failed: customers'')"
    by code_simp
  then have c: "fst ?run \<noteq> Resolved ()" by simp
  have d: "map_option rows (tables worldB ''customers'') = Some []"
    by (simp add: worldB_def organizations_up_def customers_up_def)
  from later_file_never_attempted[OF a b c] r d show ?thesis by simp
qed

text \<open>
  C6, as the code behaves: the claim asks that the connection is destroyed exactly once on
  every way out of the run. When the first input file cannot be opened, the file stream emits
  \<open>'error'\<close>; the only \<open>'error'\<close> listener is on the parser, so the error is thrown as an
  uncaught exception and the process ends with the promise of \<open>main\<close> still pending:
  the \<open>finally\<close> block never runs and \<open>db.destroy()\<close> is not called.
\<close>

theorem missing_file_skips_cleanup:
  "fst (main missingFiles) =
     Uncaught (Error ''ENOENT: no such file or directory, open ../tmp/extracted/dump/customers.csv''
                 (Some ''ENOENT'')) \<and>
   trace (snd (main missingFiles)) =
     [Raw ''SELECT 1'', ConsoleLog ''Database connected successfully'',
      ConsoleLog ''Starting to insert customers'', Open ''../tmp/extracted/dump/customers.csv''] \<and>
   count_list (trace (snd (main missingFiles))) Destroy = 0"
  by code_simp

section \<open>Blank lines\<close>

lemma splitOn_not_Nil: "splitOn c xs \<noteq> []"
  by (induction xs) (auto split: list.splits)

lemma splitOn_append: "splitOn c (a @ c # b) = splitOn c a @ splitOn c b"
proof (induction a)
  case Nil
  show ?case by simp
next
  case (Cons x a)
  obtain f fs where s: "splitOn c a = f # fs"
    using splitOn_not_Nil[of c a] by (cases "splitOn c a") auto
  show ?case using Cons s by simp
qed

lemma parseLines_blank: "parseLines (xs @ [] # ys) = parseLines (xs @ ys)"
  by (simp add: parseLines_def)

lemma parse_blank_line:
  "parse (a @ [CHR 0x0A, CHR 0x0A] @ b) = parse (a @ [CHR 0x0A] @ b)"
proof -
  have "splitOn (CHR 0x0A) (a @ CHR 0x0A # (CHR 0x0A # b)) =
        splitOn (CHR 0x0A) a @ [] # splitOn (CHR 0x0A) b"
    by (simp only: splitOn_append) simp
  moreover have "splitOn (CHR 0x0A) (a @ CHR 0x0A # b) =
        splitOn (CHR 0x0A) a @ splitOn (CHR 0x0A) b"
    by (rule splitOn_append)
  ultimately show ?thesis by (simp add: parse_def parseLines_blank)
qed

text \<open>
  C9: a blank line never produces a record. A blank line anywhere in the text leaves the
  parser's result as it is without that line, and scenario A (header \<open>id,name\<close>, rows
  \<open>1,Alice\<close> and \<open>2,Bob\<close>, a blank line, row \<open>3,Carol\<close>) parses to three records and
  leaves exactly three rows in a table that was empty.
\<close>

theorem blank_lines_skipped:
  "parse (a @ [CHR 0x0A, CHR 0x0A] @ b) = parse (a @ [CHR 0x0A] @ b) \<and>
   parse scenarioA =
     ([[(''id'', ''1''), (''name'', ''Alice'')],
       [(''id'', ''2''), (''name'', ''Bob'')],
       [(''id'', ''3''), (''name'', ''Carol'')]], None) \<and>
   rows people = [] \<and>
   fst (processCSVStream ''people.csv'' ''people'' worldA) = Resolved () \<and>
   map_option (\<lambda>t. length (rows t))
     (tables (snd (processCSVStream ''people.csv'' ''people'' worldA)) ''people'') = Some 3"
proof -
  have "fst (processCSVStream ''people.csv'' ''people'' worldA) = Resolved ()" by code_simp
  moreover have "map_option (\<lambda>t. length (rows t))
     (tables (snd (processCSVStream ''people.csv'' ''people'' worldA)) ''people'') = Some 3"
    by code_simp
  moreover have "rows people = []" by (simp add: people_def)
  ultimately show ?thesis using parse_blank_line scenarioA_parse by simp
qed

section \<open>Cleanup on the paths that settle\<close>

lemma checkDatabaseConnection_trace:
  assumes "checkDatabaseConnection w = (b, w1)"
  shows "\<exists>evs. trace w1 = trace w @ evs \<and> Destroy \<notin> set evs"
  using assms
  by (auto simp: checkDatabaseConnection_def raw_def nextFault_def emit_def consoleLog_def
           split: list.splits option.splits)

lemma count_trace:
  assumes "count t w = (x, w1)"
  shows "trace w1 = trace w @ [Count t]"
  using assms
  by (auto simp: count_def nextFault_def emit_def split: list.splits option.splits)

lemma verifyCounts_trace:
  assumes "verifyCounts w = (out, w1)"
  shows "\<exists>evs. trace w1 = trace w @ evs \<and> Destroy \<notin> set evs"
proof -
  obtain x wa where a: "count ''customers'' w = (x, wa)" by (cases "count ''customers'' w")
  obtain y wb where b: "count ''organizations'' wa = (y, wb)" by (cases "count ''organizations'' wa")
  note ta = count_trace[OF a] and tb = count_trace[OF b]
  show ?thesis
    using assms a b ta tb
    by (cases x; cases y) (auto simp: verifyCounts_def)
qed

lemma processCSVStream_no_destroy:
  assumes "processCSVStream p t w = (out, w1)"
  shows "\<exists>evs. trace w1 = trace w @ evs \<and> Destroy \<notin> set evs"
proof -
  from processCSVStream_phases[OF assms] obtain reading writing where
    h: "trace w1 = trace w @ reading @ writing" "list_all (readEvent p) reading"
       "list_all (writeEvent t) writing" by blast
  have "Destroy \<notin> set (reading @ writing)"
    using h(2,3) by (auto simp: list_all_iff)
  with h(1) show ?thesis by blast
qed

lemma tryBlock_no_destroy:
  assumes "tryBlock w = (out, w')"
  shows "\<exists>evs. trace w' = trace w @ evs \<and> Destroy \<notin> set evs"
proof -
  obtain b w1 where c: "checkDatabaseConnection w = (b, w1)"
    by (cases "checkDatabaseConnection w")
  from checkDatabaseConnection_trace[OF c] obtain e1 where
    e1: "trace w1 = trace w @ e1" "Destroy \<notin> set e1" by blast
  show ?thesis
  proof (cases b)
    case False
    with assms c have "w' = emit (ConsoleError ''Exiting due to database connection failure'' None) w1"
      by (simp add: tryBlock_def)
    with e1 have "trace w' = trace w @ (e1 @ [ConsoleError ''Exiting due to database connection failure'' None])"
      by simp
    moreover have "Destroy \<notin> set (e1 @ [ConsoleError ''Exiting due to database connection failure'' None])"
      using e1(2) by simp
    ultimately show ?thesis by blast
  next
    case True
    let ?wa = "consoleLog ''Starting to insert customers'' w1"
    obtain o2 w2 where p2: "processCSVStream customersCsv ''customers'' ?wa = (o2, w2)"
      by (cases "processCSVStream customersCsv ''customers'' ?wa")
    from processCSVStream_no_destroy[OF p2] obtain e2 where
      e2: "trace w2 = trace ?wa @ e2" "Destroy \<notin> set e2" by blast
    have t2: "trace w2 = trace w @ (e1 @ ConsoleLog ''Starting to insert customers'' # e2)"
      using e1 e2 by simp
    have n2: "Destroy \<notin> set (e1 @ ConsoleLog ''Starting to insert customers'' # e2)"
      using e1 e2 by simp
    show ?thesis
    proof (cases "o2 = Resolved ()")
      case False
      with assms c True p2 have "w' = w2" by (cases o2) (simp_all add: tryBlock_def)
      with t2 n2 show ?thesis by blast
    next
      case r2: True
      let ?wb = "consoleLog ''Starting to insert organizations'' w2"
      obtain o3 w3 where p3: "processCSVStream organizationsCsv ''organizations'' ?wb = (o3, w3)"
        by (cases "processCSVStream organizationsCsv ''organizations'' ?wb")
      from processCSVStream_no_destroy[OF p3] obtain e3 where
        e3: "trace w3 = trace ?wb @ e3" "Destroy \<notin> set e3" by blast
      have t3: "trace w3 = trace w @ (e1 @ ConsoleLog ''Starting to insert customers'' # e2 @
                  ConsoleLog ''Starting to insert organizations'' # e3)"
        using t2 e3 by simp
      have n3: "Destroy \<notin> set (e1 @ ConsoleLog ''Starting to insert customers'' # e2 @
                  ConsoleLog ''Starting to insert organizations'' # e3)"
        using n2 e3 by simp
      show ?thesis
      proof (cases "o3 = Resolved ()")
        case False
        with assms c True p2 r2 p3 have "w' = w3" by (cases o3) (simp_all add: tryBlock_def)
        with t3 n3 show ?thesis by blast
      next
        case r3: True
        let ?wc = "consoleLog ''All data insertion completed'' w3"
        have v: "verifyCounts ?wc = (out, w')"
          using assms c True p2 r2 p3 r3 by (simp add: tryBlock_def)
        from verifyCounts_trace[OF v] obtain e4 where
          e4: "trace w' = trace ?wc @ e4" "Destroy \<notin> set e4" by blast
        have "trace w' = trace w @ (e1 @ ConsoleLog ''Starting to insert customers'' # e2 @
                  ConsoleLog ''Starting to insert organizations'' # e3 @
                  ConsoleLog ''All data insertion completed'' # e4)"
          using t3 e4 by simp
        moreover have "Destroy \<notin> set (e1 @ ConsoleLog ''Starting to insert customers'' # e2 @
                  ConsoleLog ''Starting to insert organizations'' # e3 @
                  ConsoleLog ''All data insertion completed'' # e4)"
          using n3 e4 by simp
        ultimately show ?thesis by blast
      qed
    qed
  qed
qed

text \<open>
  Whenever the promise of \<open>main\<close> settles, the run has destroyed the connection exactly once,
  as its last action before the closing log line; the promise never rejects.
\<close>

theorem settled_run_destroys_once:
  "fst (main w) \<noteq> Rejected e \<and>
   (fst (main w) = Resolved () \<longrightarrow>
      (\<exists>evs. trace (snd (main w)) = trace w @ evs @ [Destroy, ConsoleLog ''Database connection closed''] \<and>
             Destroy \<notin> set evs))"
proof -
  obtain out w' where t: "tryBlock w = (out, w')" by (cases "tryBlock w")
  from tryBlock_no_destroy[OF t] obtain evs where
    evs: "trace w' = trace w @ evs" "Destroy \<notin> set evs" by blast
  show ?thesis
  proof (cases out)
    case (Resolved u)
    with t have "main w = (Resolved (), finallyBlock w')" by (simp add: main_def)
    with evs show ?thesis by auto
  next
    case (Rejected x)
    with t have m: "main w = (Resolved (), finallyBlock (emit (ConsoleError ''Error:'' (Some x)) w'))"
      by (simp add: main_def)
    have "trace (snd (main w)) = trace w @ (evs @ [ConsoleError ''Error:'' (Some x)]) @
            [Destroy, ConsoleLog ''Database connection closed'']"
      using m evs by simp
    moreover have "Destroy \<notin> set (evs @ [ConsoleError ''Error:'' (Some x)])" using evs by simp
    ultimately show ?thesis using m by (metis fst_conv outcome.distinct(1))
  next
    case (Uncaught x)
    with t have "main w = (Uncaught x, w')" by (simp add: main_def)
    then show ?thesis by simp
  qed
qed

theorem settled_run_destroys_once_witness:
  "fst (main worldB) = Resolved () \<and>
   (\<exists>evs. trace (snd (main worldB)) = evs @ [Destroy, ConsoleLog ''Database connection closed''] \<and>
          Destroy \<notin> set evs)"
proof -
  have a: "fst (main worldB) = Resolved ()" by code_simp
  have b: "trace worldB = []" by (simp add: worldB_def)
  from settled_run_destroys_once[of worldB] a b show ?thesis by simp
qed

section \<open>The retry bound on a database that stays locked\<close>

lemma raw_locked:
  assumes "faults w = Some e # rest"
  shows "raw sql w = (Inl e, w\<lparr>faults := rest, trace := trace w @ [Raw sql]\<rparr>)"
  using assms by (simp add: raw_def nextFault_def emit_def)

lemma retryLoop_locked:
  assumes "code e = Some ''SQLITE_BUSY''"
    and "nat (n - attempt) = k" and "attempt \<le> n"
    and "faults w = replicate (Suc k) (Some e) @ rest"
  shows "\<exists>evs. retryLoop (raw sql) (Num (of_int n)) delayMs attempt w =
                 (Inl e, w\<lparr>faults := rest, trace := trace w @ evs\<rparr>) \<and>
               count_list evs (Raw sql) = Suc k \<and>
               count_list evs (Timeout delayMs) = k"
  using assms(2-)
proof (induction k arbitrary: attempt w)
  case 0
  then have eq: "attempt = n" by simp
  from 0 have f: "faults w = Some e # rest" by simp
  have "retryLoop (raw sql) (Num (of_int n)) delayMs attempt w =
          (Inl e, w\<lparr>faults := rest, trace := trace w @ [Raw sql]\<rparr>)"
    using eq raw_locked[OF f, of sql]
    by (simp add: retryLoop.simps[of _ "Num (of_int n)" delayMs n w])
  then show ?case by (intro exI[of _ "[Raw sql]"]) simp
next
  case (Suc k)
  then have lt: "attempt < n" by simp
  from Suc.prems have f: "faults w = Some e # (replicate (Suc k) (Some e) @ rest)" by simp
  let ?w1 = "w\<lparr>faults := replicate (Suc k) (Some e) @ rest, trace := trace w @ [Raw sql]\<rparr>"
  let ?msg = "retryMessage delayMs attempt (Num (of_int n))"
  let ?w2 = "delay delayMs (consoleLog ?msg ?w1)"
  have step: "retryLoop (raw sql) (Num (of_int n)) delayMs attempt w =
              retryLoop (raw sql) (Num (of_int n)) delayMs (attempt + 1) ?w2"
    using lt raw_locked[OF f, of sql] assms(1)
    by (simp add: retryLoop.simps[of _ "Num (of_int n)" delayMs attempt w])
  have k: "nat (n - (attempt + 1)) = k" using Suc.prems by simp
  have le: "attempt + 1 \<le> n" using lt by simp
  have f2: "faults ?w2 = replicate (Suc k) (Some e) @ rest" by simp
  from Suc.IH[OF k le f2] obtain evs where
    ih: "retryLoop (raw sql) (Num (of_int n)) delayMs (attempt + 1) ?w2 =
           (Inl e, ?w2\<lparr>faults := rest, trace := trace ?w2 @ evs\<rparr>)"
        "count_list evs (Raw sql) = Suc k" "count_list evs (Timeout delayMs) = k"
    by blast
  have w2: "?w2\<lparr>faults := rest, trace := trace ?w2 @ evs\<rparr> =
            w\<lparr>faults := rest, trace := trace w @ (Raw sql # ConsoleLog ?msg # Timeout delayMs # evs)\<rparr>"
    by (simp add: delay_def consoleLog_def emit_def)
  show ?case
    using step ih w2
    by (intro exI[of _ "Raw sql # ConsoleLog ?msg # Timeout delayMs # evs"]) simp
qed

text \<open>
  The attempts are bounded as the retry policy says: on a database that answers
  \<open>SQLITE_BUSY\<close> to at least \<open>maxRetries\<close> statements in a row (an integer \<open>maxRetries \<ge> 1\<close>),
  the statement is sent exactly \<open>maxRetries\<close> times, the loop waits \<open>maxRetries - 1\<close> times, and
  the call ends with the engine's own error.
\<close>

theorem retryOperation_attempt_bound:
  assumes "code e = Some ''SQLITE_BUSY''" and "1 \<le> n"
    and "faults w = replicate (nat n) (Some e) @ rest"
  shows "\<exists>evs. retryOperation (raw sql) (Num (of_int n)) delayMs w =
                 (Inl e, w\<lparr>faults := rest, trace := trace w @ evs\<rparr>) \<and>
               int (count_list evs (Raw sql)) = n \<and>
               int (count_list evs (Timeout delayMs)) = n - 1"
proof -
  have k: "nat (n - 1) = nat n - 1" by simp
  have f: "faults w = replicate (Suc (nat n - 1)) (Some e) @ rest"
    using assms(2,3) by simp
  from retryLoop_locked[OF assms(1) k assms(2) f, of sql delayMs] assms(2)
  show ?thesis by (auto simp: retryOperation_def)
qed

theorem retryOperation_attempt_bound_witness:
  "\<exists>evs. retryOperation (raw ''SELECT 1'') (Num 5) (Num 1000) lockedWorld =
           (Inl busy, lockedWorld\<lparr>faults := [Some busy], trace := evs\<rparr>) \<and>
         count_list evs (Raw ''SELECT 1'') = 5 \<and>
         count_list evs (Timeout (Num 1000)) = 4"
proof -
  have a: "code busy = Some ''SQLITE_BUSY''" by (simp add: busy_def)
  have b: "(1::int) \<le> 5" by simp
  have c: "faults lockedWorld = replicate (nat 5) (Some busy) @ [Some busy]"
    by (simp add: lockedWorld_def emptyWorld_def numeral_eq_Suc)
  have d: "trace lockedWorld = []" by (simp add: lockedWorld_def emptyWorld_def)
  from retryOperation_attempt_bound[OF a b c, of "''SELECT 1''" "Num 1000"] d
  show ?thesis by auto
qed

end
